theory Spec2Isabelle
  imports Main
begin

section \<open>Data model of the detector registry\<close>

text \<open>
  The development follows \<^verbatim>\<open>DetectorRegistry\<close> (class \<^verbatim>\<open>DetectorRegistry extends Singleton\<close>
  with its methods \<^verbatim>\<open>add\<close> and \<^verbatim>\<open>detectForCluster\<close>).

  Whatever a JavaScript \<^verbatim>\<open>throw\<close> or a rejected promise carries is an \<open>error\<close> value.
  A \<^verbatim>\<open>ClusterDetectionResult\<close> is the object \<^verbatim>\<open>{ value, accuracy }\<close>; the accuracy is a
  JavaScript number, taken here as an integer (no \<^verbatim>\<open>NaN\<close>, no rounding).
\<close>

datatype error = Thrown string | TypeError

record 'v ClusterDetectionResult =
  result_value :: 'v
  accuracy :: int

text \<open>
  A detector instance has its \<^verbatim>\<open>key\<close> and the method \<^verbatim>\<open>detect()\<close>. The detector is
  already bound to its cluster by the constructor, so \<open>detect\<close> is the settled outcome of
  the promise that \<^verbatim>\<open>detect()\<close> returns: rejected with an error (\<open>Inl\<close>), or fulfilled
  with a result or with \<^verbatim>\<open>null\<close>/\<^verbatim>\<open>undefined\<close> (\<open>Inr None\<close>).
\<close>

record 'v BaseClusterDetector =
  key :: string
  detect :: "error + 'v ClusterDetectionResult option"

text \<open>
  \<^verbatim>\<open>ClusterDetectionConstructor = new (cluster: Cluster) => BaseClusterDetector\<close>;
  a constructor may throw.
\<close>

type_synonym ('c, 'v) ClusterDetectionConstructor = "'c \<Rightarrow> error + 'v BaseClusterDetector"

record ('c, 'v) DetectorRegistry =
  registry :: "('c, 'v) ClusterDetectionConstructor list"

text \<open>The field initialiser \<^verbatim>\<open>registry = observable.array([], { deep: false })\<close>.\<close>

definition new_DetectorRegistry :: "('c, 'v) DetectorRegistry" where
  "new_DetectorRegistry = \<lparr>registry = []\<rparr>"

subsection \<open>JavaScript \<^verbatim>\<open>Map\<close> objects\<close>

text \<open>
  A \<^verbatim>\<open>Map\<close> object keeps its entries in the internal slot \<^verbatim>\<open>[[MapData]]\<close>, in insertion
  order; they are not properties of the object. \<^verbatim>\<open>new Map()\<close> has no own enumerable
  property, and \<^verbatim>\<open>has\<close>, \<^verbatim>\<open>get\<close> and \<^verbatim>\<open>set\<close> read and write the slot only.
  \<^verbatim>\<open>Object.entries(o)\<close> lists the own enumerable string-keyed properties of \<open>o\<close>.
\<close>

record 'a js_Map =
  own_properties :: "(string \<times> 'a) list"
  MapData :: "(string \<times> 'a) list"

definition new_Map :: "'a js_Map" where
  "new_Map = \<lparr>own_properties = [], MapData = []\<rparr>"

definition Map_has :: "'a js_Map \<Rightarrow> string \<Rightarrow> bool" where
  "Map_has m k = (map_of (MapData m) k \<noteq> None)"

definition Map_get :: "'a js_Map \<Rightarrow> string \<Rightarrow> 'a option" where
  "Map_get m k = map_of (MapData m) k"

text \<open>\<^verbatim>\<open>set\<close> overwrites the value of an existing key in place and appends a new key.\<close>

fun set_entry :: "string \<Rightarrow> 'a \<Rightarrow> (string \<times> 'a) list \<Rightarrow> (string \<times> 'a) list" where
  "set_entry k v [] = [(k, v)]"
| "set_entry k v ((k', v') # entries) =
     (if k' = k then (k, v) # entries else (k', v') # set_entry k v entries)"

definition Map_set :: "'a js_Map \<Rightarrow> string \<Rightarrow> 'a \<Rightarrow> 'a js_Map" where
  "Map_set m k v = m\<lparr>MapData := set_entry k v (MapData m)\<rparr>"

definition Object_entries :: "'a js_Map \<Rightarrow> (string \<times> 'a) list" where
  "Object_entries m = own_properties m"

text \<open>
  \<^verbatim>\<open>Object.fromEntries\<close> builds a plain object, assigning the entries in order (a later
  entry overwrites an earlier one of the same key). The plain object returned as
  \<^verbatim>\<open>ClusterMetadata\<close> is a map from keys to values.
\<close>

type_synonym 'v ClusterMetadata = "string \<rightharpoonup> 'v"

definition Object_fromEntries :: "(string \<times> 'v) list \<Rightarrow> 'v ClusterMetadata" where
  "Object_fromEntries entries = foldl (\<lambda>obj (k, v). obj(k \<mapsto> v)) Map.empty entries"

text \<open>
  Modelled from the spec: \<^verbatim>\<open>iter.map\<close> is imported from \<^verbatim>\<open>common/utils\<close>, which is not
  among the sources. The projection step of the spec (``project the mapping to
  key \<open>\<rightarrow>\<close> value, discarding accuracy'') applies the given function to every element of
  the iterable, in order.
\<close>

definition iter_map :: "'a list \<Rightarrow> ('a \<Rightarrow> 'b) \<Rightarrow> 'b list" where
  "iter_map src fn = map fn src"

section \<open>The registry operations\<close>

text \<open>\<^verbatim>\<open>add\<close>: \<^verbatim>\<open>this.registry.push(detectorClass); return this;\<close>\<close>

definition add :: "('c, 'v) DetectorRegistry \<Rightarrow> ('c, 'v) ClusterDetectionConstructor
    \<Rightarrow> ('c, 'v) DetectorRegistry" where
  "add this detectorClass = this\<lparr>registry := registry this @ [detectorClass]\<rparr>"

text \<open>
  The settled outcome of one promise of \<^verbatim>\<open>detections\<close>: the asynchronous arrow function
  constructs the detector, reads its key and awaits \<^verbatim>\<open>detect()\<close>. An exception of the
  constructor or a rejection of \<^verbatim>\<open>detect()\<close> rejects the promise of the arrow function.
\<close>

type_synonym 'v detection = "error + (string \<times> 'v ClusterDetectionResult option)"

definition detection_task :: "'c \<Rightarrow> ('c, 'v) ClusterDetectionConstructor \<Rightarrow> 'v detection" where
  "detection_task cluster DetectorClass =
     (case DetectorClass cluster of
        Inl e \<Rightarrow> Inl e
      | Inr detector \<Rightarrow>
          (case detect detector of
             Inl e \<Rightarrow> Inl e
           | Inr data \<Rightarrow> Inr (key detector, data)))"

definition detections :: "('c, 'v) DetectorRegistry \<Rightarrow> 'c \<Rightarrow> 'v detection list" where
  "detections this cluster = map (detection_task cluster) (registry this)"

text \<open>
  The body of the \<^verbatim>\<open>try\<close> block: \<^verbatim>\<open>await detection\<close> throws when the promise is
  rejected; \<^verbatim>\<open>data &&\<close> skips \<^verbatim>\<open>null\<close> and \<^verbatim>\<open>undefined\<close>; \<^verbatim>\<open>results.get(key).accuracy\<close>
  throws a \<^verbatim>\<open>TypeError\<close> when \<^verbatim>\<open>get\<close> returns \<^verbatim>\<open>undefined\<close>.
\<close>

definition try_block :: "'v ClusterDetectionResult js_Map \<Rightarrow> 'v detection
    \<Rightarrow> error + 'v ClusterDetectionResult js_Map" where
  "try_block results detection =
     (case detection of
        Inl e \<Rightarrow> Inl e
      | Inr (k, data) \<Rightarrow>
          (case data of
             None \<Rightarrow> Inr results
           | Some d \<Rightarrow>
               if \<not> Map_has results k then Inr (Map_set results k d)
               else (case Map_get results k of
                       None \<Rightarrow> Inl TypeError
                     | Some stored \<Rightarrow>
                         if accuracy stored \<le> accuracy d then Inr (Map_set results k d)
                         else Inr results)))"

text \<open>One iteration of the \<^verbatim>\<open>for\<close> loop: \<^verbatim>\<open>try { ... } catch {}\<close>.\<close>

definition loop_body :: "'v ClusterDetectionResult js_Map \<Rightarrow> 'v detection
    \<Rightarrow> 'v ClusterDetectionResult js_Map" where
  "loop_body results detection =
     (case try_block results detection of
        Inl e \<Rightarrow> results
      | Inr results' \<Rightarrow> results')"

fun fold_detections :: "'v detection list \<Rightarrow> 'v ClusterDetectionResult js_Map
    \<Rightarrow> 'v ClusterDetectionResult js_Map" where
  "fold_detections [] results = results"
| "fold_detections (detection # rest) results = fold_detections rest (loop_body results detection)"

text \<open>The local \<^verbatim>\<open>results\<close> when the loop has ended.\<close>

definition pass_results :: "('c, 'v) DetectorRegistry \<Rightarrow> 'c \<Rightarrow> 'v ClusterDetectionResult js_Map" where
  "pass_results this cluster = fold_detections (detections this cluster) new_Map"

text \<open>
  \<^verbatim>\<open>detectForCluster\<close>, every promise of \<^verbatim>\<open>detections\<close> being settled when it is awaited
  (the loop never has to wait). The returned promise is fulfilled (\<open>Inr\<close>) or rejected
  (\<open>Inl\<close>). The runs in which the loop waits for a probe are those of
  \<open>detectForCluster_async\<close> below.
\<close>

definition detectForCluster :: "('c, 'v) DetectorRegistry \<Rightarrow> 'c \<Rightarrow> error + 'v ClusterMetadata" where
  "detectForCluster this cluster =
     (let results = pass_results this cluster
      in Inr (Object_fromEntries
               (iter_map (Object_entries results) (\<lambda>(k, r). (k, result_value r)))))"


subsection \<open>Event-loop turns and unhandled rejections\<close>

text \<open>
  All promises of \<^verbatim>\<open>detections\<close> are created by \<^verbatim>\<open>registry.map\<close> before the loop starts,
  and each settles in some turn of the event loop: in the turn of the call itself (a
  constructor that throws, a \<^verbatim>\<open>detect()\<close> that does no input or output) or in a later
  turn, when its input or output completes. The loop attaches a handler to a promise
  only when it reaches it (\<^verbatim>\<open>await detection\<close>). Within a turn the loop runs on over
  every promise that has settled, and stops at the first one that has not.

  At the end of each turn the host looks for rejected promises that have no handler.
  Under the default policy of Node.js such an unhandled rejection is raised as an
  uncaught exception and the process is terminated; the promise returned by
  \<^verbatim>\<open>detectForCluster\<close> is then never settled. Nothing in the class installs another
  policy.

  A run is given by the promises that settle in the turn of the call and, for each later
  turn, the promises that settle in it (lists of indices into \<^verbatim>\<open>detections\<close>).
\<close>

datatype 'a pass_outcome = Returned 'a | Terminated | Pending

text \<open>
  The loop within one turn, from the promise of index \<open>pos\<close> on: the new position, the
  promises not yet awaited (the first of them being awaited now), and \<^verbatim>\<open>results\<close>.
\<close>

fun advance :: "nat set \<Rightarrow> nat \<Rightarrow> 'v detection list \<Rightarrow> 'v ClusterDetectionResult js_Map
    \<Rightarrow> nat \<times> 'v detection list \<times> 'v ClusterDetectionResult js_Map" where
  "advance settled pos [] results = (pos, [], results)"
| "advance settled pos (detection # rest) results =
     (if pos \<in> settled then advance settled (Suc pos) rest (loop_body results detection)
      else (pos, detection # rest, results))"

text \<open>Whether one of the promises from index \<open>i\<close> on has been rejected.\<close>

fun unhandled_rejection :: "nat set \<Rightarrow> nat \<Rightarrow> 'v detection list \<Rightarrow> bool" where
  "unhandled_rejection settled i [] = False"
| "unhandled_rejection settled i (detection # rest) =
     ((isl detection \<and> i \<in> settled) \<or> unhandled_rejection settled (Suc i) rest)"

text \<open>
  The end of a turn: the loop has ended, or a promise behind the awaited one has been
  rejected, or the loop waits for the awaited promise.
\<close>

datatype 'v turn_end =
  Loop_ended "'v ClusterDetectionResult js_Map"
| Rejection_unhandled
| Awaiting nat "'v detection list" "'v ClusterDetectionResult js_Map"

definition end_of_turn :: "nat set \<Rightarrow> nat \<Rightarrow> 'v detection list
    \<Rightarrow> 'v ClusterDetectionResult js_Map \<Rightarrow> 'v turn_end" where
  "end_of_turn settled pos ds results =
     (case advance settled pos ds results of
        (pos', [], results') \<Rightarrow> Loop_ended results'
      | (pos', awaited # rest, results') \<Rightarrow>
          if unhandled_rejection settled (Suc pos') rest then Rejection_unhandled
          else Awaiting pos' (awaited # rest) results')"

text \<open>
  The turns: \<open>settled\<close> holds the promises settled up to the current turn, \<open>turns\<close> are
  the turns to come. When no turn is left and the loop still waits, the returned promise
  stays pending.
\<close>

fun run_turns :: "nat list list \<Rightarrow> nat set \<Rightarrow> nat \<Rightarrow> 'v detection list
    \<Rightarrow> 'v ClusterDetectionResult js_Map \<Rightarrow> 'v ClusterDetectionResult js_Map pass_outcome" where
  "run_turns [] settled pos ds results =
     (case end_of_turn settled pos ds results of
        Loop_ended results' \<Rightarrow> Returned results'
      | Rejection_unhandled \<Rightarrow> Terminated
      | Awaiting pos' ds' results' \<Rightarrow> Pending)"
| "run_turns (turn # turns) settled pos ds results =
     (case end_of_turn settled pos ds results of
        Loop_ended results' \<Rightarrow> Returned results'
      | Rejection_unhandled \<Rightarrow> Terminated
      | Awaiting pos' ds' results' \<Rightarrow> run_turns turns (settled \<union> set turn) pos' ds' results')"

definition pass_results_async :: "nat list \<Rightarrow> nat list list \<Rightarrow> ('c, 'v) DetectorRegistry \<Rightarrow> 'c
    \<Rightarrow> 'v ClusterDetectionResult js_Map pass_outcome" where
  "pass_results_async immediate later this cluster =
     run_turns later (set immediate) 0 (detections this cluster) new_Map"

text \<open>
  \<^verbatim>\<open>detectForCluster\<close> in a run where the promises \<open>immediate\<close> settle in the turn of the
  call and the others as \<open>later\<close> says.
\<close>

definition detectForCluster_async :: "nat list \<Rightarrow> nat list list \<Rightarrow> ('c, 'v) DetectorRegistry \<Rightarrow> 'c
    \<Rightarrow> (error + 'v ClusterMetadata) pass_outcome" where
  "detectForCluster_async immediate later this cluster =
     (case pass_results_async immediate later this cluster of
        Returned results \<Rightarrow>
          Returned (Inr (Object_fromEntries
                          (iter_map (Object_entries results) (\<lambda>(k, r). (k, result_value r)))))
      | Terminated \<Rightarrow> Terminated
      | Pending \<Rightarrow> Pending)"

text \<open>
  What the spec calls the inputs of the merge: for each detector whether it failed,
  returned no result, or returned a result, with its key and the returned accuracy (the
  returned value is left out).
\<close>

datatype outcome_summary = Failed | No_result string | Result string int

definition summary :: "'v detection \<Rightarrow> outcome_summary" where
  "summary detection =
     (case detection of
        Inl e \<Rightarrow> Failed
      | Inr (k, data) \<Rightarrow> (case data of None \<Rightarrow> No_result k | Some d \<Rightarrow> Result k (accuracy d)))"

text \<open>The keys of the best-result \<^verbatim>\<open>Map\<close> with the accuracy stored for each.\<close>

definition stored_accuracies :: "'v ClusterDetectionResult js_Map \<Rightarrow> (string \<times> int) list" where
  "stored_accuracies results = map (\<lambda>(k, r). (k, accuracy r)) (MapData results)"

subsection \<open>Detectors of the scenarios\<close>

text \<open>
  A detector class whose \<^verbatim>\<open>detect()\<close> returns \<^verbatim>\<open>{ value: v, accuracy: a }\<close>, one whose
  \<^verbatim>\<open>detect()\<close> rejects, and one whose constructor throws.
\<close>

definition detector_returning :: "string \<Rightarrow> 'v \<Rightarrow> int \<Rightarrow> ('c, 'v) ClusterDetectionConstructor" where
  "detector_returning k v a =
     (\<lambda>cluster. Inr \<lparr>key = k, detect = Inr (Some \<lparr>result_value = v, accuracy = a\<rparr>)\<rparr>)"

definition detector_failing :: "string \<Rightarrow> error \<Rightarrow> ('c, 'v) ClusterDetectionConstructor" where
  "detector_failing k e = (\<lambda>cluster. Inr \<lparr>key = k, detect = Inl e\<rparr>)"


text \<open>The registries of the scenarios, built with \<^verbatim>\<open>add\<close> from an empty registry.\<close>

definition registry_one_detector :: "(unit, string) DetectorRegistry" where
  "registry_one_detector =
     add new_DetectorRegistry (detector_returning ''distribution'' ''kind'' 1)"

definition scenario_1 :: "(unit, string) DetectorRegistry" where
  "scenario_1 =
     add (add new_DetectorRegistry (detector_returning ''distribution'' ''kind'' 1))
       (detector_returning ''distribution'' ''k3s'' 5)"

definition scenario_1_reversed :: "(unit, string) DetectorRegistry" where
  "scenario_1_reversed =
     add (add new_DetectorRegistry (detector_returning ''distribution'' ''k3s'' 5))
       (detector_returning ''distribution'' ''kind'' 1)"

definition scenario_2 :: "(unit, string) DetectorRegistry" where
  "scenario_2 =
     add (add new_DetectorRegistry (detector_returning ''cloudProvider'' ''aws'' 3))
       (detector_failing ''cloudProvider'' (Thrown ''probe failed''))"

definition scenario_3 :: "(unit, string) DetectorRegistry" where
  "scenario_3 =
     add (add new_DetectorRegistry (detector_returning ''cloudProvider'' ''aws'' 3))
       (detector_returning ''cloudProvider'' ''gcp'' 3)"




section \<open>Properties\<close>

subsection \<open>The \<^verbatim>\<open>Map\<close> operations\<close>

lemma map_of_set_entry: "map_of (set_entry k v entries) = (map_of entries)(k \<mapsto> v)"
  by (induction entries) (auto simp: fun_eq_iff)

lemma Map_get_Map_set: "Map_get (Map_set m k v) k' = (if k' = k then Some v else Map_get m k')"
  by (simp add: Map_get_def Map_set_def map_of_set_entry)

lemma Map_has_Map_set: "Map_has (Map_set m k v) k' \<longleftrightarrow> k' = k \<or> Map_has m k'"
  by (simp add: Map_has_def Map_set_def map_of_set_entry)

lemma Map_has_iff_get: "Map_has m k \<longleftrightarrow> (\<exists>v. Map_get m k = Some v)"
  by (simp add: Map_has_def Map_get_def)

lemma Map_has_new_Map: "\<not> Map_has new_Map k"
  by (simp add: Map_has_def new_Map_def)

lemma own_properties_Map_set: "own_properties (Map_set m k v) = own_properties m"
  by (simp add: Map_set_def)

subsection \<open>One iteration of the loop\<close>

text \<open>The \<^verbatim>\<open>TypeError\<close> branch is never taken: \<^verbatim>\<open>get\<close> is called after \<^verbatim>\<open>has\<close> only.\<close>

lemma try_block_result:
  "try_block results (Inr (k, Some d)) =
     Inr (case Map_get results k of
            None \<Rightarrow> Map_set results k d
          | Some stored \<Rightarrow> if accuracy stored \<le> accuracy d then Map_set results k d else results)"
  by (auto simp: try_block_def Map_has_iff_get split: option.splits)

lemma loop_body_rejected: "loop_body results (Inl e) = results"
  by (simp add: loop_body_def try_block_def)

lemma loop_body_no_result: "loop_body results (Inr (k, None)) = results"
  by (simp add: loop_body_def try_block_def)

lemma loop_body_result:
  "loop_body results (Inr (k, Some d)) =
     (case Map_get results k of
        None \<Rightarrow> Map_set results k d
      | Some stored \<Rightarrow> if accuracy stored \<le> accuracy d then Map_set results k d else results)"
  by (simp add: loop_body_def try_block_result)

lemma own_properties_loop_body: "own_properties (loop_body results detection) = own_properties results"
  by (auto simp: loop_body_def try_block_def own_properties_Map_set
      split: sum.splits option.splits prod.splits)

lemma Map_has_loop_body:
  "Map_has (loop_body results detection) k \<longleftrightarrow>
     Map_has results k \<or> (\<exists>d. detection = Inr (k, Some d))"
proof (cases detection)
  case (Inl e)
  then show ?thesis by (simp add: loop_body_rejected)
next
  case (Inr p)
  obtain k' data where p: "p = (k', data)" by (cases p)
  show ?thesis
  proof (cases data)
    case None
    with Inr p show ?thesis by (simp add: loop_body_no_result)
  next
    case (Some d)
    with Inr p show ?thesis
      by (auto simp: loop_body_result Map_get_Map_set Map_has_iff_get split: option.splits)
  qed
qed

subsection \<open>The loop\<close>

lemma fold_detections_append:
  "fold_detections (ds @ ds') results = fold_detections ds' (fold_detections ds results)"
  by (induction ds arbitrary: results) simp_all

lemma own_properties_fold_detections:
  "own_properties (fold_detections ds results) = own_properties results"
  by (induction ds arbitrary: results) (simp_all add: own_properties_loop_body)

lemma Map_has_fold_detections:
  "Map_has (fold_detections ds results) k \<longleftrightarrow>
     Map_has results k \<or> (\<exists>d. Inr (k, Some d) \<in> set ds)"
  by (induction ds arbitrary: results) (auto simp: Map_has_loop_body)

text \<open>
  The best-result \<^verbatim>\<open>Map\<close> has a key exactly when some detector with that key returned a
  result without failing.
\<close>

lemma Map_has_pass_results:
  "Map_has (pass_results this cluster) k \<longleftrightarrow>
     (\<exists>d. Inr (k, Some d) \<in> set (detections this cluster))"
  by (simp add: pass_results_def Map_has_fold_detections Map_has_new_Map)

lemma Object_entries_pass_results: "Object_entries (pass_results this cluster) = []"
  by (simp add: Object_entries_def pass_results_def own_properties_fold_detections new_Map_def)

lemma detectForCluster_eq: "detectForCluster this cluster = Inr Map.empty"
  by (simp add: detectForCluster_def Object_entries_pass_results iter_map_def
      Object_fromEntries_def)

lemma detections_add:
  "detections (add this detectorClass) cluster =
     detections this cluster @ [detection_task cluster detectorClass]"
  by (simp add: detections_def add_def)

lemma pass_results_add:
  "pass_results (add this detectorClass) cluster =
     loop_body (pass_results this cluster) (detection_task cluster detectorClass)"
  by (simp add: pass_results_def detections_add fold_detections_append)

lemma pass_results_new: "pass_results new_DetectorRegistry cluster = new_Map"
  by (simp add: pass_results_def detections_def new_DetectorRegistry_def)

lemma Map_get_new_Map: "Map_get new_Map k = None"
  by (simp add: Map_get_def new_Map_def)

lemma detection_task_returning:
  "detection_task cluster (detector_returning k v a) =
     Inr (k, Some \<lparr>result_value = v, accuracy = a\<rparr>)"
  by (simp add: detection_task_def detector_returning_def)

lemma detection_task_failing: "detection_task cluster (detector_failing k e) = Inl e"
  by (simp add: detection_task_def detector_failing_def)


subsection \<open>The merge policy on the best-result \<^verbatim>\<open>Map\<close>\<close>

text \<open>
  Of two detectors that return results for the same key, the one with the strictly
  higher accuracy is stored, in either registration order.
\<close>

lemma pass_results_higher_accuracy:
  assumes "detection_task cluster A = Inr (k, Some dA)"
    and "detection_task cluster B = Inr (k, Some dB)"
    and "accuracy dA < accuracy dB"
  shows "Map_get (pass_results (add (add new_DetectorRegistry A) B) cluster) k = Some dB"
    and "Map_get (pass_results (add (add new_DetectorRegistry B) A) cluster) k = Some dB"
  using assms
  by (simp_all add: pass_results_add pass_results_new loop_body_result
      Map_get_new_Map Map_get_Map_set)

text \<open>With equal accuracy the detector registered later is stored.\<close>

lemma pass_results_tie:
  assumes "detection_task cluster A = Inr (k, Some dA)"
    and "detection_task cluster B = Inr (k, Some dB)"
    and "accuracy dA = accuracy dB"
  shows "Map_get (pass_results (add (add new_DetectorRegistry A) B) cluster) k = Some dB"
  using assms
  by (simp add: pass_results_add pass_results_new loop_body_result
      Map_get_new_Map Map_get_Map_set)

text \<open>A rejected promise leaves the best-result \<^verbatim>\<open>Map\<close> as it is, wherever it stands.\<close>

lemma fold_detections_rejected:
  "fold_detections (ds @ Inl e # ds') results = fold_detections (ds @ ds') results"
  by (simp add: fold_detections_append loop_body_rejected)

lemma fold_detections_all_rejected:
  "\<forall>d\<in>set ds. isl d \<Longrightarrow> fold_detections ds results = results"
proof (induction ds arbitrary: results)
  case Nil
  show ?case by simp
next
  case (Cons d ds)
  from Cons.prems obtain e where "d = Inl e" by (cases d) auto
  with Cons show ?case by (simp add: loop_body_rejected)
qed

subsection \<open>Runs over event-loop turns\<close>

text \<open>Within a turn the loop merges a prefix of the promises, in registration order.\<close>

lemma advance_prefix:
  "advance settled pos ds results = (pos', ds', results') \<Longrightarrow>
     \<exists>merged. ds = merged @ ds' \<and> results' = fold_detections merged results"
proof (induction ds arbitrary: pos results)
  case Nil
  then show ?case by simp
next
  case (Cons d ds)
  show ?case
  proof (cases "pos \<in> settled")
    case True
    with Cons.prems
    have "advance settled (Suc pos) ds (loop_body results d) = (pos', ds', results')"
      by simp
    from Cons.IH [OF this] obtain merged
      where "ds = merged @ ds'" and "results' = fold_detections merged (loop_body results d)"
      by blast
    then have "d # ds = (d # merged) @ ds' \<and> results' = fold_detections (d # merged) results"
      by simp
    then show ?thesis by blast
  next
    case False
    with Cons.prems have "d # ds = [] @ ds' \<and> results' = fold_detections [] results"
      by simp
    then show ?thesis by blast
  qed
qed

lemma advance_all_settled:
  "{pos..<pos + length ds} \<subseteq> settled \<Longrightarrow>
     advance settled pos ds results = (pos + length ds, [], fold_detections ds results)"
proof (induction ds arbitrary: pos results)
  case Nil
  show ?case by simp
next
  case (Cons d ds)
  have "pos \<in> {pos..<pos + length (d # ds)}" by simp
  with Cons.prems have p: "pos \<in> settled" by blast
  have "{Suc pos..<Suc pos + length ds} \<subseteq> {pos..<pos + length (d # ds)}" by auto
  with Cons.prems have "{Suc pos..<Suc pos + length ds} \<subseteq> settled" by blast
  from Cons.IH [OF this] p show ?case by simp
qed

text \<open>A run that returns has the \<^verbatim>\<open>results\<close> of the loop over all promises in order.\<close>

lemma end_of_turn_Loop_ended:
  "end_of_turn settled pos ds results = Loop_ended results' \<Longrightarrow>
     results' = fold_detections ds results"
proof -
  assume e: "end_of_turn settled pos ds results = Loop_ended results'"
  obtain p ds' r where a: "advance settled pos ds results = (p, ds', r)"
    by (cases "advance settled pos ds results") auto
  from e a have "ds' = []" and "r = results'"
    by (auto simp: end_of_turn_def split: list.splits if_splits)
  with advance_prefix [OF a] show ?thesis by auto
qed

lemma end_of_turn_Awaiting:
  "end_of_turn settled pos ds results = Awaiting pos' ds' results' \<Longrightarrow>
     fold_detections ds' results' = fold_detections ds results"
proof -
  assume e: "end_of_turn settled pos ds results = Awaiting pos' ds' results'"
  obtain p ds'' r where a: "advance settled pos ds results = (p, ds'', r)"
    by (cases "advance settled pos ds results") auto
  from e a have "ds'' = ds'" and "r = results'"
    by (auto simp: end_of_turn_def split: list.splits if_splits)
  with advance_prefix [OF a] show ?thesis by (auto simp: fold_detections_append)
qed

lemma run_turns_Returned:
  "run_turns turns settled pos ds results = Returned results' \<Longrightarrow>
     results' = fold_detections ds results"
proof (induction turns arbitrary: settled pos ds results)
  case Nil
  then show ?case
    by (cases "end_of_turn settled pos ds results") (auto dest: end_of_turn_Loop_ended)
next
  case (Cons turn turns)
  show ?case
  proof (cases "end_of_turn settled pos ds results")
    case (Loop_ended r)
    with Cons.prems have "r = results'" by simp
    with Loop_ended show ?thesis by (auto dest: end_of_turn_Loop_ended)
  next
    case Rejection_unhandled
    with Cons.prems show ?thesis by simp
  next
    case (Awaiting p ds' r)
    with Cons.prems have "run_turns turns (settled \<union> set turn) p ds' r = Returned results'"
      by simp
    from Cons.IH [OF this] end_of_turn_Awaiting [OF Awaiting] show ?thesis by simp
  qed
qed

lemma pass_results_async_Returned:
  "pass_results_async immediate later this cluster = Returned results \<Longrightarrow>
     results = pass_results this cluster"
  unfolding pass_results_async_def pass_results_def by (rule run_turns_Returned)

text \<open>
  Whatever the turns are, the run returns the empty mapping, or the process is
  terminated, or the call stays pending.
\<close>

lemma detectForCluster_async_eq:
  "detectForCluster_async immediate later this cluster =
     (case pass_results_async immediate later this cluster of
        Returned results \<Rightarrow> Returned (detectForCluster this cluster)
      | Terminated \<Rightarrow> Terminated
      | Pending \<Rightarrow> Pending)"
proof (cases "pass_results_async immediate later this cluster")
  case (Returned results)
  from pass_results_async_Returned [OF this] Returned show ?thesis
    by (simp add: detectForCluster_async_def detectForCluster_def)
next
  case Terminated
  then show ?thesis by (simp add: detectForCluster_async_def)
next
  case Pending
  then show ?thesis by (simp add: detectForCluster_async_def)
qed

text \<open>When every promise settles in the turn of the call, the run is that of the loop alone.\<close>

lemma detectForCluster_async_immediate:
  assumes "{..<length (registry this)} \<subseteq> set immediate"
  shows "detectForCluster_async immediate later this cluster =
     Returned (detectForCluster this cluster)"
proof -
  from assms have "{0..<0 + length (detections this cluster)} \<subseteq> set immediate"
    by (auto simp: detections_def)
  from advance_all_settled [OF this]
  have "end_of_turn (set immediate) 0 (detections this cluster) new_Map =
      Loop_ended (fold_detections (detections this cluster) new_Map)"
    by (simp add: end_of_turn_def)
  then have "pass_results_async immediate later this cluster =
      Returned (pass_results this cluster)"
    by (cases later) (simp_all add: pass_results_async_def pass_results_def)
  then show ?thesis by (simp add: detectForCluster_async_eq)
qed

lemma advance_position:
  "advance settled pos ds results = (pos', ds', results') \<Longrightarrow>
     pos' + length ds' = pos + length ds"
proof (induction ds arbitrary: pos results)
  case Nil
  then show ?case by simp
next
  case (Cons d ds)
  show ?case
  proof (cases "pos \<in> settled")
    case True
    with Cons.prems
    have "advance settled (Suc pos) ds (loop_body results d) = (pos', ds', results')"
      by simp
    from Cons.IH [OF this] show ?thesis by simp
  next
    case False
    with Cons.prems show ?thesis by auto
  qed
qed

lemma unhandled_rejection_none:
  "\<forall>d\<in>set ds. \<not> isl d \<Longrightarrow> \<not> unhandled_rejection settled i ds"
  by (induction ds arbitrary: i) simp_all

lemma unhandled_rejection_nothing_settled: "\<not> unhandled_rejection {} i ds"
  by (induction ds arbitrary: i) simp_all

text \<open>When no probe fails, a run in which every probe completes returns, in any order.\<close>

lemma run_turns_no_rejection:
  "\<forall>d\<in>set ds. \<not> isl d \<Longrightarrow>
   {pos..<pos + length ds} \<subseteq> settled \<union> \<Union>(set ` set turns) \<Longrightarrow>
     run_turns turns settled pos ds results = Returned (fold_detections ds results)"
proof (induction turns arbitrary: settled pos ds results)
  case Nil
  then have "{pos..<pos + length ds} \<subseteq> settled" by simp
  from advance_all_settled [OF this] show ?case by (simp add: end_of_turn_def)
next
  case (Cons turn turns)
  note prems = Cons.prems and IH = Cons.IH
  obtain p ds' r where a: "advance settled pos ds results = (p, ds', r)"
    by (cases "advance settled pos ds results") auto
  from advance_prefix [OF a] obtain merged
    where m: "ds = merged @ ds'" and r: "r = fold_detections merged results"
    by blast
  from advance_position [OF a] m have p: "p = pos + length merged" by simp
  show ?case
  proof (cases ds')
    case Nil
    with a m r show ?thesis by (simp add: end_of_turn_def)
  next
    case (Cons awaited rest)
    from prems(1) m Cons have "\<forall>d\<in>set rest. \<not> isl d" by simp
    then have u: "\<not> unhandled_rejection settled (Suc p) rest"
      by (rule unhandled_rejection_none)
    from a Cons u have e: "end_of_turn settled pos ds results = Awaiting p ds' r"
      by (simp add: end_of_turn_def)
    from prems(1) m have n: "\<forall>d\<in>set ds'. \<not> isl d" by simp
    have "{p..<p + length ds'} \<subseteq> {pos..<pos + length ds}"
      using p m by auto
    with prems(2)
    have "{p..<p + length ds'} \<subseteq> settled \<union> \<Union>(set ` set (turn # turns))"
      by blast
    then have "{p..<p + length ds'} \<subseteq> (settled \<union> set turn) \<union> \<Union>(set ` set turns)"
      by (simp add: Un_assoc)
    from IH [OF n this] e m r show ?thesis
      by (simp add: fold_detections_append)
  qed
qed

lemma detectForCluster_async_no_rejection:
  assumes "\<forall>d\<in>set (detections this cluster). \<not> isl d"
    and "{..<length (registry this)} \<subseteq> set immediate \<union> \<Union>(set ` set later)"
  shows "detectForCluster_async immediate later this cluster =
     Returned (detectForCluster this cluster)"
proof -
  from assms(2)
  have "{0..<0 + length (detections this cluster)} \<subseteq> set immediate \<union> \<Union>(set ` set later)"
    by (auto simp: detections_def)
  from run_turns_no_rejection [OF assms(1) this]
  have "pass_results_async immediate later this cluster = Returned (pass_results this cluster)"
    by (simp add: pass_results_async_def pass_results_def)
  then show ?thesis by (simp add: detectForCluster_async_eq)
qed

text \<open>While no probe completes, the call stays pending.\<close>

lemma detectForCluster_async_pending:
  "registry this \<noteq> [] \<Longrightarrow> detectForCluster_async [] [] this cluster = Pending"
  by (cases "registry this")
    (simp_all add: detectForCluster_async_def pass_results_async_def detections_def
      end_of_turn_def unhandled_rejection_nothing_settled)

lemma stored_accuracies_Map_set:
  "stored_accuracies (Map_set m k d) = set_entry k (accuracy d) (stored_accuracies m)"
proof -
  have "map (\<lambda>(k, r). (k, accuracy r)) (set_entry k d entries) =
      set_entry k (accuracy d) (map (\<lambda>(k, r). (k, accuracy r)) entries)" for entries
    by (induction entries) auto
  then show ?thesis by (simp add: stored_accuracies_def Map_set_def)
qed

lemma map_of_stored_accuracies:
  "map_of (stored_accuracies m) k = map_option accuracy (Map_get m k)"
  by (simp add: stored_accuracies_def Map_get_def map_of_map)

lemma stored_accuracies_loop_body:
  assumes "summary d = summary d'" and "stored_accuracies m = stored_accuracies m'"
  shows "stored_accuracies (loop_body m d) = stored_accuracies (loop_body m' d')"
proof (cases "summary d")
  case Failed
  with assms(1) obtain e e' where "d = Inl e" "d' = Inl e'"
    by (auto simp: summary_def split: sum.splits option.splits prod.splits)
  with assms(2) show ?thesis by (simp add: loop_body_rejected)
next
  case (No_result k)
  with assms(1) have "d = Inr (k, None)" "d' = Inr (k, None)"
    by (auto simp: summary_def split: sum.splits option.splits prod.splits)
  with assms(2) show ?thesis by (simp add: loop_body_no_result)
next
  case (Result k a)
  with assms(1) obtain r r' where d: "d = Inr (k, Some r)" "d' = Inr (k, Some r')"
    and r: "accuracy r = accuracy r'"
    by (auto simp: summary_def split: sum.splits option.splits prod.splits)
  have g: "map_option accuracy (Map_get m k) = map_option accuracy (Map_get m' k)"
    using map_of_stored_accuracies [of m k] map_of_stored_accuracies [of m' k] assms(2)
    by simp
  have set: "stored_accuracies (Map_set m k r) = stored_accuracies (Map_set m' k r')"
    by (simp add: stored_accuracies_Map_set assms(2) r)
  show ?thesis
  proof (cases "Map_get m k")
    case None
    with g have "Map_get m' k = None" by simp
    with None set show ?thesis by (simp add: d loop_body_result)
  next
    case (Some s)
    with g obtain s' where s': "Map_get m' k = Some s'" and acc: "accuracy s' = accuracy s"
      by (cases "Map_get m' k") auto
    show ?thesis
    proof (cases "accuracy s \<le> accuracy r")
      case True
      with Some s' acc r set show ?thesis by (simp add: d loop_body_result)
    next
      case False
      with Some s' acc r assms(2) show ?thesis by (simp add: d loop_body_result)
    qed
  qed
qed

lemma stored_accuracies_fold_detections:
  "map summary ds = map summary ds' \<Longrightarrow> stored_accuracies m = stored_accuracies m' \<Longrightarrow>
     stored_accuracies (fold_detections ds m) = stored_accuracies (fold_detections ds' m')"
proof (induction ds arbitrary: ds' m m')
  case Nil
  then show ?case by simp
next
  case (Cons d ds)
  from Cons.prems(1) obtain d' ds'' where ds': "ds' = d' # ds''"
    and d: "summary d = summary d'" and r: "map summary ds = map summary ds''"
    by (cases ds') auto
  have "stored_accuracies (loop_body m d) = stored_accuracies (loop_body m' d')"
    using d Cons.prems(2) by (rule stored_accuracies_loop_body)
  with r have "stored_accuracies (fold_detections ds (loop_body m d)) =
      stored_accuracies (fold_detections ds'' (loop_body m' d'))"
    by (rule Cons.IH)
  then show ?case by (simp add: ds')
qed

lemma stored_accuracies_pass_results:
  assumes "map summary (detections this cluster) = map summary (detections this' cluster')"
  shows "stored_accuracies (pass_results this cluster) =
     stored_accuracies (pass_results this' cluster')"
  unfolding pass_results_def using assms
  by (rule stored_accuracies_fold_detections) (simp add: stored_accuracies_def new_Map_def)

lemma detections_new: "detections new_DetectorRegistry cluster = []"
  by (simp add: detections_def new_DetectorRegistry_def)

section \<open>The claims\<close>

text \<open>
  C1. The claim: a key is in the mapping returned by \<^verbatim>\<open>detectForCluster\<close> exactly when a
  registered detector with that key returned a result without failing. The best-result
  \<^verbatim>\<open>Map\<close> has that property (\<open>Map_has_pass_results\<close>), the returned object has not:
  with one registered detector returning a result for the key \<^verbatim>\<open>distribution\<close>, the
  \<^verbatim>\<open>Map\<close> holds the result and the returned object has no key.
\<close>

theorem detectForCluster_omits_detected_key:
  "detections registry_one_detector ()
     = [Inr (''distribution'', Some \<lparr>result_value = ''kind'', accuracy = 1\<rparr>)]
   \<and> Map_get (pass_results registry_one_detector ()) ''distribution''
     = Some \<lparr>result_value = ''kind'', accuracy = 1\<rparr>
   \<and> detectForCluster registry_one_detector () = Inr Map.empty
   \<and> detectForCluster registry_one_detector () \<noteq> Inr [''distribution'' \<mapsto> ''kind'']"
proof -
  have "Map.empty \<noteq> [''distribution'' \<mapsto> ''kind'']"
    by (simp add: fun_eq_iff)
  then show ?thesis
    by (simp add: registry_one_detector_def detectForCluster_eq detections_add
        detection_task_returning pass_results_add pass_results_new loop_body_result
        Map_get_new_Map Map_get_Map_set detections_new)
qed

text \<open>
  C2. For every registry and every cluster the object returned by \<^verbatim>\<open>detectForCluster\<close>
  is the empty mapping: \<^verbatim>\<open>Object.entries\<close> of the best-result \<^verbatim>\<open>Map\<close> is the empty list,
  although the \<^verbatim>\<open>Map\<close> has an entry for every key with a returned result.
\<close>

theorem detectForCluster_returns_empty_mapping:
  "detectForCluster this cluster = Inr Map.empty
   \<and> Object_entries (pass_results this cluster) = []
   \<and> (\<forall>k d. Inr (k, Some d) \<in> set (detections this cluster)
         \<longrightarrow> Map_has (pass_results this cluster) k)"
  by (auto simp: detectForCluster_eq Object_entries_pass_results Map_has_pass_results)

theorem detectForCluster_returns_empty_mapping_witness:
  "Inr (''cloudProvider'', Some \<lparr>result_value = ''aws'', accuracy = 3\<rparr>)
     \<in> set (detections (add new_DetectorRegistry (detector_returning ''cloudProvider'' ''aws'' 3)) ())
   \<and> Map_has (pass_results
         (add new_DetectorRegistry (detector_returning ''cloudProvider'' ''aws'' 3)) ())
       ''cloudProvider''
   \<and> detectForCluster
         (add new_DetectorRegistry (detector_returning ''cloudProvider'' ''aws'' 3)) ()
       = Inr Map.empty"
proof -
  have h: "Inr (''cloudProvider'', Some \<lparr>result_value = ''aws'', accuracy = 3\<rparr>)
     \<in> set (detections (add new_DetectorRegistry (detector_returning ''cloudProvider'' ''aws'' 3)) ())"
    by (simp add: detections_add detection_task_returning)
  from detectForCluster_returns_empty_mapping
    [of "add new_DetectorRegistry (detector_returning ''cloudProvider'' ''aws'' 3)" "()"] h
  show ?thesis by blast
qed

text \<open>
  C3. The claim: of two detectors that return results for the same key, the value of
  the one with the strictly higher accuracy is in the returned mapping, in either
  registration order; scenario 1 returns \<^verbatim>\<open>{ distribution: k3s }\<close>. The best-result
  \<^verbatim>\<open>Map\<close> stores that result (\<open>pass_results_higher_accuracy\<close>); the object returned
  in scenario 1, in both registration orders, is empty.
\<close>

theorem detectForCluster_scenario_accuracy_ordering:
  "Map_get (pass_results scenario_1 ()) ''distribution''
     = Some \<lparr>result_value = ''k3s'', accuracy = 5\<rparr>
   \<and> detectForCluster scenario_1 () = Inr Map.empty
   \<and> detectForCluster scenario_1 () \<noteq> Inr [''distribution'' \<mapsto> ''k3s'']
   \<and> Map_get (pass_results scenario_1_reversed ()) ''distribution''
     = Some \<lparr>result_value = ''k3s'', accuracy = 5\<rparr>
   \<and> detectForCluster scenario_1_reversed () = Inr Map.empty
   \<and> detectForCluster scenario_1_reversed () \<noteq> Inr [''distribution'' \<mapsto> ''k3s'']"
proof -
  have "Map.empty \<noteq> [''distribution'' \<mapsto> ''k3s'']"
    by (simp add: fun_eq_iff)
  then show ?thesis
    by (simp add: scenario_1_def scenario_1_reversed_def detectForCluster_eq
        detection_task_returning pass_results_add pass_results_new loop_body_result
        Map_get_new_Map Map_get_Map_set)
qed

text \<open>
  C4. The claim: of two detectors that return results of equal accuracy for the same
  key, the value of the one registered later is in the returned mapping; scenario 3
  returns \<^verbatim>\<open>{ cloudProvider: gcp }\<close>. The best-result \<^verbatim>\<open>Map\<close> stores the later result
  (\<open>pass_results_tie\<close>); the object returned in scenario 3 is empty.
\<close>

theorem detectForCluster_scenario_exact_tie:
  "Map_get (pass_results scenario_3 ()) ''cloudProvider''
     = Some \<lparr>result_value = ''gcp'', accuracy = 3\<rparr>
   \<and> detectForCluster scenario_3 () = Inr Map.empty
   \<and> detectForCluster scenario_3 () \<noteq> Inr [''cloudProvider'' \<mapsto> ''gcp'']"
proof -
  have "Map.empty \<noteq> [''cloudProvider'' \<mapsto> ''gcp'']"
    by (simp add: fun_eq_iff)
  then show ?thesis
    by (simp add: scenario_3_def detectForCluster_eq detection_task_returning
        pass_results_add pass_results_new loop_body_result Map_get_new_Map Map_get_Map_set)
qed

text \<open>
  C5. The claim: a failing detector neither appears in the returned mapping nor keeps
  the contribution of another detector out of it; scenario 2 returns
  \<^verbatim>\<open>{ cloudProvider: aws }\<close>. The failure leaves the best-result \<^verbatim>\<open>Map\<close> as it is
  (\<open>fold_detections_rejected\<close>); the object returned in scenario 2 is empty.
\<close>

theorem detectForCluster_scenario_failure_tolerance:
  "Map_get (pass_results scenario_2 ()) ''cloudProvider''
     = Some \<lparr>result_value = ''aws'', accuracy = 3\<rparr>
   \<and> detectForCluster scenario_2 () = Inr Map.empty
   \<and> detectForCluster scenario_2 () \<noteq> Inr [''cloudProvider'' \<mapsto> ''aws'']"
proof -
  have "Map.empty \<noteq> [''cloudProvider'' \<mapsto> ''aws'']"
    by (simp add: fun_eq_iff)
  then show ?thesis
    by (simp add: scenario_2_def detectForCluster_eq detection_task_returning
        detection_task_failing pass_results_add pass_results_new loop_body_result
        loop_body_rejected Map_get_new_Map Map_get_Map_set)
qed


text \<open>
  C7. On a registry with no registered factory, \<^verbatim>\<open>detectForCluster\<close> returns the empty
  mapping, for any cluster.
\<close>

theorem detectForCluster_empty_registry:
  "detectForCluster new_DetectorRegistry cluster = Inr Map.empty"
  by (simp add: detectForCluster_def pass_results_def detections_def new_DetectorRegistry_def
      new_Map_def Object_entries_def iter_map_def Object_fromEntries_def)





end
